theory Spec2Isabelle
  imports Main "HOL-Library.Sublist"
begin

section \<open>The quiz response parser of \<^verbatim>\<open>quiz_generator.py\<close>\<close>

text \<open>
  The development embeds \<^verbatim>\<open>QuizGenerator.parse_quiz\<close> and
  \<^verbatim>\<open>QuizGenerator._is_valid_question\<close>. A Python \<^verbatim>\<open>str\<close> is modelled as a
  \<^typ>\<open>string\<close>; the characters covered are the code points below 256, for which
  \<^verbatim>\<open>str.lower\<close> keeps the length of a string. The exceptions the parser can raise
  are values of the type \<open>error\<close>, and a result is an \<open>error + 'a\<close>.
\<close>

subsection \<open>String primitives of Python\<close>

text \<open>\<^verbatim>\<open>str.isspace\<close> on one character with code point below 256: the code points
  9 to 13, 28 to 32, 133 and 160.\<close>

definition isspace :: "char \<Rightarrow> bool" where
  "isspace c = (let n = (of_char c :: nat) in
     (9 \<le> n \<and> n \<le> 13) \<or> (28 \<le> n \<and> n \<le> 32) \<or> n = 133 \<or> n = 160)"

text \<open>\<^verbatim>\<open>s.strip()\<close>: white space removed at both ends.\<close>

definition strip :: "string \<Rightarrow> string" where
  "strip s = rev (dropWhile isspace (rev (dropWhile isspace s)))"

text \<open>\<^verbatim>\<open>str.lower\<close> on one character with code point below 256: the letters A to Z
  and the upper-case letters of Latin-1 (192 to 222 without the sign 215) move up by 32.\<close>

definition lower_char :: "char \<Rightarrow> char" where
  "lower_char c = (let n = (of_char c :: nat) in
     if (65 \<le> n \<and> n \<le> 90) \<or> (192 \<le> n \<and> n \<le> 214) \<or> (216 \<le> n \<and> n \<le> 222)
     then char_of (n + 32) else c)"

definition lower :: "string \<Rightarrow> string" where
  "lower s = map lower_char s"

text \<open>\<^verbatim>\<open>s.startswith(p)\<close>.\<close>

definition startswith :: "string \<Rightarrow> string \<Rightarrow> bool" where
  "startswith s p = (take (length p) s = p)"

text \<open>\<^verbatim>\<open>s.split(d)\<close> for a separator of one character: the pieces between the
  occurrences of \<open>d\<close>; there is always at least one piece.\<close>

fun split_on :: "char \<Rightarrow> string \<Rightarrow> string list" where
  "split_on d [] = [[]]"
| "split_on d (c # cs) =
     (if c = d then [] # split_on d cs
      else (case split_on d cs of
              [] \<Rightarrow> [[c]]
            | w # ws \<Rightarrow> (c # w) # ws))"

text \<open>\<^verbatim>\<open>s.split(d, 1)\<close>: split at the first occurrence of \<open>d\<close> only.\<close>

definition split1 :: "char \<Rightarrow> string \<Rightarrow> string list" where
  "split1 d s =
     (if d \<in> set s
      then [takeWhile (\<lambda>c. c \<noteq> d) s, tl (dropWhile (\<lambda>c. c \<noteq> d) s)]
      else [s])"

text \<open>The line feed, and \<^verbatim>\<open>"\n".join(ls)\<close>, used to write texts of several lines.\<close>

definition nl :: char where
  "nl = CHR 0x0A"

fun join_lines :: "string list \<Rightarrow> string" where
  "join_lines [] = []"
| "join_lines [l] = l"
| "join_lines (l # k # ls) = l @ nl # join_lines (k # ls)"

subsection \<open>Question records\<close>

text \<open>A question is a Python dict with the keys \<^verbatim>\<open>"question"\<close>, \<^verbatim>\<open>"options"\<close>
  and \<^verbatim>\<open>"answer"\<close>, each of which may be absent: the parser starts from the empty
  dict \<^verbatim>\<open>{}\<close>. A field is \<open>None\<close> when its key is absent.\<close>

record quiz_q =
  question :: "string option"
  options :: "string list option"
  answer :: "string option"

datatype error = KeyError | IndexError

text \<open>The empty dict, and the truth value of a dict (\<^verbatim>\<open>if current_q:\<close>), which is
  false for the empty dict only.\<close>

definition empty_q :: quiz_q where
  "empty_q = \<lparr>question = None, options = None, answer = None\<rparr>"

definition truthy :: "quiz_q \<Rightarrow> bool" where
  "truthy q = (q \<noteq> empty_q)"

text \<open>\<^verbatim>\<open>_is_valid_question\<close>: \<^verbatim>\<open>get("options", [])\<close> has length 4,
  \<^verbatim>\<open>get("answer")\<close> is one of the four letters, and \<^verbatim>\<open>get("question")\<close> is a
  non-empty string.\<close>

definition is_valid_question :: "quiz_q \<Rightarrow> bool" where
  "is_valid_question q =
     (length (case options q of None \<Rightarrow> [] | Some os \<Rightarrow> os) = 4 \<and>
      answer q \<in> set [Some ''a'', Some ''b'', Some ''c'', Some ''d''] \<and>
      (case question q of None \<Rightarrow> False | Some s \<Rightarrow> s \<noteq> []))"

subsection \<open>The parser\<close>

text \<open>The three tests of the loop body, in the order of the source:
  \<^verbatim>\<open>line.lower().startswith("question")\<close>,
  \<^verbatim>\<open>line.startswith(("A)", "B)", "C)", "D)"))\<close> and
  \<^verbatim>\<open>line.lower().startswith("answer:")\<close>.\<close>

definition is_question_line :: "string \<Rightarrow> bool" where
  "is_question_line line = startswith (lower line) ''question''"

definition is_option_line :: "string \<Rightarrow> bool" where
  "is_option_line line =
     (startswith line ''A)'' \<or> startswith line ''B)'' \<or>
      startswith line ''C)'' \<or> startswith line ''D)'')"

definition is_answer_line :: "string \<Rightarrow> bool" where
  "is_answer_line line = startswith (lower line) ''answer:''"

text \<open>The state of the loop is the list \<^verbatim>\<open>questions\<close> and the dict
  \<^verbatim>\<open>current_q\<close>. One iteration of the loop body:
  \<^item> a question line appends \<^verbatim>\<open>current_q\<close> when it is not the empty dict, and
    opens a fresh record whose question is the text after the first colon, stripped
    (the whole line when it has no colon);
  \<^item> an option line reads \<^verbatim>\<open>current_q["options"]\<close>, which raises KeyError when
    the key is absent, and appends \<^verbatim>\<open>line[3:].strip()\<close>;
  \<^item> an answer line computes \<^verbatim>\<open>line.split(":")[-1].strip().lower()[0]\<close>, which
    raises IndexError on the empty string, and stores it under \<^verbatim>\<open>"answer"\<close>;
  \<^item> any other line changes nothing.\<close>

type_synonym pstate = "quiz_q list \<times> quiz_q"

definition step :: "string \<Rightarrow> pstate \<Rightarrow> error + pstate" where
  "step line st =
     (case st of (questions, current_q) \<Rightarrow>
        if is_question_line line then
          Inr (if truthy current_q then questions @ [current_q] else questions,
               \<lparr>question = Some (strip (last (split1 CHR '':'' line))),
                options = Some [], answer = Some []\<rparr>)
        else if is_option_line line then
          (case options current_q of
             None \<Rightarrow> Inl KeyError
           | Some os \<Rightarrow>
               Inr (questions, current_q\<lparr>options := Some (os @ [strip (drop 3 line)])\<rparr>))
        else if is_answer_line line then
          (case lower (strip (last (split_on CHR '':'' line))) of
             [] \<Rightarrow> Inl IndexError
           | c # cs \<Rightarrow> Inr (questions, current_q\<lparr>answer := Some [c]\<rparr>))
        else Inr st)"

text \<open>The \<^verbatim>\<open>for\<close> loop: the first exception ends it.\<close>

fun parse_loop :: "string list \<Rightarrow> pstate \<Rightarrow> error + pstate" where
  "parse_loop [] st = Inr st"
| "parse_loop (line # ls) st =
     (case step line st of
        Inl e \<Rightarrow> Inl e
      | Inr st' \<Rightarrow> parse_loop ls st')"

text \<open>\<^verbatim>\<open>[line.strip() for line in response_text.split('\n') if line.strip()]\<close>.\<close>

definition clean_lines :: "string \<Rightarrow> string list" where
  "clean_lines response_text =
     map strip (filter (\<lambda>line. strip line \<noteq> []) (split_on nl response_text))"

text \<open>\<^verbatim>\<open>parse_quiz\<close>: the loop from the empty list and the empty dict, then the
  valid records of \<^verbatim>\<open>questions\<close>, cut to five. The record left in
  \<^verbatim>\<open>current_q\<close> when the loop ends is not used.\<close>

definition parse_quiz :: "string \<Rightarrow> error + quiz_q list" where
  "parse_quiz response_text =
     (case parse_loop (clean_lines response_text) ([], empty_q) of
        Inl e \<Rightarrow> Inl e
      | Inr (questions, current_q) \<Rightarrow> Inr (take 5 (filter is_valid_question questions)))"

subsection \<open>Texts in the format of the prompt\<close>

text \<open>\<^verbatim>\<open>generate_quiz\<close> asks the model for blocks of six lines:
  \<^verbatim>\<open>Question 1: [question text]\<close>, \<^verbatim>\<open>A) [option 1]\<close> to \<^verbatim>\<open>D) [option 4]\<close>
  and \<^verbatim>\<open>Answer: [letter]\<close>. A \<open>block\<close> holds the parts of one such block;
  \<open>render_block\<close> writes its six lines and \<open>record_of\<close> is the dict it stands for.
  A part is \<open>plain\<close> when it is not empty, has no line feed and neither starts nor ends
  with white space.\<close>

definition plain :: "string \<Rightarrow> bool" where
  "plain s = (s \<noteq> [] \<and> nl \<notin> set s \<and> \<not> isspace (hd s) \<and> \<not> isspace (last s))"

record block =
  b_label :: string
  b_question :: string
  b_optA :: string
  b_optB :: string
  b_optC :: string
  b_optD :: string
  b_answer :: char

definition render_block :: "block \<Rightarrow> string list" where
  "render_block b =
     [''Question '' @ b_label b @ '': '' @ b_question b,
      ''A) '' @ b_optA b,
      ''B) '' @ b_optB b,
      ''C) '' @ b_optC b,
      ''D) '' @ b_optD b,
      ''Answer: '' @ [b_answer b]]"

definition record_of :: "block \<Rightarrow> quiz_q" where
  "record_of b =
     \<lparr>question = Some (b_question b),
      options = Some [b_optA b, b_optB b, b_optC b, b_optD b],
      answer = Some [lower_char (b_answer b)]\<rparr>"

definition wf_block :: "block \<Rightarrow> bool" where
  "wf_block b =
     (CHR '':'' \<notin> set (b_label b) \<and> nl \<notin> set (b_label b) \<and>
      plain (b_question b) \<and>
      plain (b_optA b) \<and> plain (b_optB b) \<and> plain (b_optC b) \<and> plain (b_optD b) \<and>
      b_answer b \<in> set ''abcdABCD'')"

definition blocks_text :: "block list \<Rightarrow> string" where
  "blocks_text bs = join_lines (concat (map render_block bs))"

text \<open>The block of the format with the question "What is 2+2?", under a given label.\<close>

definition sample_block :: "string \<Rightarrow> block" where
  "sample_block n =
     \<lparr>b_label = n, b_question = ''What is 2+2?'',
      b_optA = ''3'', b_optB = ''4'', b_optC = ''5'', b_optD = ''6'',
      b_answer = CHR ''B''\<rparr>"

definition sample_record :: quiz_q where
  "sample_record =
     \<lparr>question = Some ''What is 2+2?'', options = Some [''3'', ''4'', ''5'', ''6''],
      answer = Some ''b''\<rparr>"

text \<open>The sample block under a label and with a question text of its own, and the
  record that the question line "Question 1: Pick one" opens.\<close>

definition titled_block :: "string \<Rightarrow> string \<Rightarrow> block" where
  "titled_block n q = (sample_block n)\<lparr>b_question := q\<rparr>"

definition open_q :: quiz_q where
  "open_q = \<lparr>question = Some ''Pick one'', options = Some [], answer = Some []\<rparr>"

section \<open>Properties\<close>

subsection \<open>Splitting, stripping and joining\<close>

lemma split_on_not_Nil: "split_on d s \<noteq> []"
  by (induction s) (auto split: list.splits)

lemma split_on_append: "split_on d (a @ d # b) = split_on d a @ split_on d b"
proof (induction a)
  case Nil
  show ?case by simp
next
  case (Cons c a)
  obtain w ws where w: "split_on d a = w # ws"
    using split_on_not_Nil [of d a] by (cases "split_on d a") auto
  show ?case
    using Cons w by simp
qed

lemma split_on_notin: "d \<notin> set s \<Longrightarrow> split_on d s = [s]"
  by (induction s) auto

lemma last_split_on: "d \<notin> set post \<Longrightarrow> last (split_on d (pre @ d # post)) = post"
  by (simp add: split_on_append split_on_notin)

lemma strip_plain:
  assumes "s \<noteq> []" "\<not> isspace (hd s)" "\<not> isspace (last s)"
  shows "strip s = s"
proof -
  have "dropWhile isspace s = s"
    using assms by (cases s) auto
  moreover have "dropWhile isspace (rev s) = rev s"
    using assms by (cases "rev s") (auto simp: last_rev hd_rev)
  ultimately show ?thesis by (simp add: strip_def)
qed

lemma strip_space_Cons: "isspace c \<Longrightarrow> strip (c # s) = strip s"
  by (simp add: strip_def)

lemma split_on_join_lines:
  "ls \<noteq> [] \<Longrightarrow> \<forall>l\<in>set ls. nl \<notin> set l \<Longrightarrow> split_on nl (join_lines ls) = ls"
proof (induction ls rule: join_lines.induct)
  case 1
  then show ?case by simp
next
  case (2 l)
  then show ?case by (simp add: split_on_notin)
next
  case (3 l k ls)
  then show ?case by (simp add: split_on_append split_on_notin)
qed

lemma clean_lines_join_lines:
  assumes "\<forall>l\<in>set ls. plain l"
  shows "clean_lines (join_lines ls) = ls"
proof (cases ls)
  case Nil
  then show ?thesis by (simp add: clean_lines_def strip_def)
next
  case (Cons a as)
  have s: "\<forall>l\<in>set ls. strip l = l"
    using assms by (auto simp: plain_def strip_plain)
  have "split_on nl (join_lines ls) = ls"
    using assms Cons by (intro split_on_join_lines) (auto simp: plain_def)
  moreover have "filter (\<lambda>line. strip line \<noteq> []) ls = ls"
    using assms s by (auto simp: plain_def filter_id_conv)
  ultimately show ?thesis
    using s by (simp add: clean_lines_def map_idI)
qed

subsection \<open>The loop\<close>

lemma parse_loop_append:
  "parse_loop (xs @ ys) st =
     (case parse_loop xs st of Inl e \<Rightarrow> Inl e | Inr st' \<Rightarrow> parse_loop ys st')"
  by (induction xs arbitrary: st) (auto split: sum.splits)

text \<open>A text none of whose lines passes one of the three tests, the empty text among
  them, leaves the state as it is and gives the empty list.\<close>

lemma parse_loop_unrecognised:
  assumes "\<forall>l\<in>set ls. \<not> is_question_line l \<and> \<not> is_option_line l \<and> \<not> is_answer_line l"
  shows "parse_loop ls st = Inr st"
  using assms by (induction ls) (simp_all add: step_def split: prod.splits)

lemma parse_quiz_unrecognised:
  assumes "\<forall>l\<in>set (clean_lines response_text).
     \<not> is_question_line l \<and> \<not> is_option_line l \<and> \<not> is_answer_line l"
  shows "parse_quiz response_text = Inr []"
  using parse_loop_unrecognised [OF assms] by (simp add: parse_quiz_def)

lemma parse_quiz_empty: "parse_quiz [] = Inr []"
  by code_simp

subsection \<open>Lines of the format\<close>

lemma lower_append: "lower (a @ b) = lower a @ lower b"
  by (simp add: lower_def)

lemma lower_Cons: "lower (c # s) = lower_char c # lower s"
  by (simp add: lower_def)

lemma lower_Question_word: "lower ''Question '' = ''question ''"
  by code_simp

lemma lower_Answer_word: "lower ''Answer: '' = ''answer: ''"
  by code_simp

lemma lower_char_markers:
  "lower_char CHR ''A'' = CHR ''a''" "lower_char CHR ''B'' = CHR ''b''"
  "lower_char CHR ''C'' = CHR ''c''" "lower_char CHR ''D'' = CHR ''d''"
  "lower_char CHR ''a'' = CHR ''a''" "lower_char CHR ''b'' = CHR ''b''"
  "lower_char CHR ''c'' = CHR ''c''" "lower_char CHR ''d'' = CHR ''d''"
  by code_simp+

lemma lower_Question: "lower (''Question '' @ r) = ''question '' @ lower r"
  by (simp only: lower_append lower_Question_word)

lemma lower_Answer: "lower (''Answer: '' @ r) = ''answer: '' @ lower r"
  by (simp only: lower_append lower_Answer_word)

lemma startswith_append: "startswith (p @ r) p"
  by (simp add: startswith_def)

lemma is_question_header: "is_question_line (''Question '' @ r)"
  unfolding is_question_line_def lower_Question by (simp add: startswith_def)

lemma isspace_sp: "isspace CHR '' ''"
  by (simp add: isspace_def)

lemma isspace_nl: "isspace nl"
  by (simp add: isspace_def nl_def)

lemma plain_strip: "plain s \<Longrightarrow> strip s = s"
  by (simp add: plain_def strip_plain)

lemma dropWhile_upto: "d \<notin> set pre \<Longrightarrow> dropWhile (\<lambda>c. c \<noteq> d) (pre @ d # post) = d # post"
  by (induction pre) auto

lemma step_header:
  assumes "CHR '':'' \<notin> set lab" "plain q"
  shows "step (''Question '' @ lab @ '': '' @ q) (qs, cur) =
     Inr (if truthy cur then qs @ [cur] else qs,
          \<lparr>question = Some q, options = Some [], answer = Some []\<rparr>)"
proof -
  let ?line = "''Question '' @ lab @ '': '' @ q"
  have "dropWhile (\<lambda>c. c \<noteq> CHR '':'') ?line = '': '' @ q"
    using assms(1) by (simp add: dropWhile_upto)
  then have "last (split1 CHR '':'' ?line) = CHR '' '' # q"
    by (simp add: split1_def)
  then have "strip (last (split1 CHR '':'' ?line)) = q"
    using assms(2) by (simp add: strip_space_Cons isspace_sp plain_strip)
  then show ?thesis
    using is_question_header [of "lab @ '': '' @ q"] by (simp add: step_def)
qed

lemma option_line_kinds:
  assumes "m \<in> set ''ABCD''"
  shows "\<not> is_question_line (m # CHR '')'' # r)" "is_option_line (m # CHR '')'' # r)"
  using assms
  by (auto simp: is_question_line_def is_option_line_def startswith_def lower_Cons lower_char_markers)

lemma step_option:
  assumes "m \<in> set ''ABCD''" "options cur = Some os"
  shows "step (m # CHR '')'' # d # rest) (qs, cur) =
     Inr (qs, cur\<lparr>options := Some (os @ [strip rest])\<rparr>)"
  using assms(2) option_line_kinds [OF assms(1), of "d # rest"]
  by (simp add: step_def)

lemma answer_line_kinds:
  "\<not> is_question_line (''Answer: '' @ r)" "\<not> is_option_line (''Answer: '' @ r)"
  "is_answer_line (''Answer: '' @ r)"
  unfolding is_question_line_def is_option_line_def is_answer_line_def lower_Answer
  by (simp_all add: startswith_def)

lemma step_answer_template:
  assumes "a \<in> set ''abcdABCD''"
  shows "step (''Answer: '' @ [a]) (qs, cur) = Inr (qs, cur\<lparr>answer := Some [lower_char a]\<rparr>)"
proof -
  have ns: "\<not> isspace a" "a \<noteq> CHR '':''"
    using assms by (auto simp: isspace_def)
  have "last (split_on CHR '':'' (''Answer: '' @ [a])) = [CHR '' '', a]"
    using ns last_split_on [of "CHR '':''" "[CHR '' '', a]" "''Answer''"] by simp
  moreover have "strip [CHR '' '', a] = [a]"
    using ns by (simp add: strip_def isspace_sp)
  ultimately show ?thesis
    using answer_line_kinds [of "[a]"] by (simp add: step_def lower_Cons lower_def)
qed


lemma truthy_open: "truthy \<lparr>question = Some q, options = os, answer = a\<rparr>"
  by (simp add: truthy_def empty_q_def)

lemma parse_loop_block:
  assumes "wf_block b"
  shows "parse_loop (render_block b @ rest) (qs, cur) =
     parse_loop rest (if truthy cur then qs @ [cur] else qs, record_of b)"
proof -
  have m: "CHR ''A'' \<in> set ''ABCD''" "CHR ''B'' \<in> set ''ABCD''"
    "CHR ''C'' \<in> set ''ABCD''" "CHR ''D'' \<in> set ''ABCD''"
    by simp_all
  have p: "strip (b_optA b) = b_optA b" "strip (b_optB b) = b_optB b"
    "strip (b_optC b) = b_optC b" "strip (b_optD b) = b_optD b"
    using assms by (simp_all add: wf_block_def plain_strip)
  have h: "step (''Question '' @ b_label b @ '': '' @ b_question b) (qs, cur) =
     Inr (if truthy cur then qs @ [cur] else qs,
          \<lparr>question = Some (b_question b), options = Some [], answer = Some []\<rparr>)"
    using assms by (intro step_header) (simp_all add: wf_block_def)
  have a: "\<And>qs' c. step (''Answer: '' @ [b_answer b]) (qs', c) =
     Inr (qs', c\<lparr>answer := Some [lower_char (b_answer b)]\<rparr>)"
    using assms by (intro step_answer_template) (simp add: wf_block_def)
  have o: "\<And>m rest qs' c os. m \<in> set ''ABCD'' \<Longrightarrow> options c = Some os \<Longrightarrow>
     step (m # CHR '')'' # CHR '' '' # rest) (qs', c) =
       Inr (qs', c\<lparr>options := Some (os @ [strip rest])\<rparr>)"
    by (rule step_option)
  show ?thesis
    using h a by (simp add: render_block_def record_of_def o [OF m(1)] o [OF m(2)] o [OF m(3)] o [OF m(4)] p del: set_simps)
qed

lemma parse_loop_blocks:
  assumes "\<forall>b\<in>set bs. wf_block b" "bs \<noteq> []"
  shows "parse_loop (concat (map render_block bs)) (qs, cur) =
     Inr ((if truthy cur then qs @ [cur] else qs) @ map record_of (butlast bs),
          record_of (last bs))"
  using assms
proof (induction bs arbitrary: qs cur)
  case Nil
  then show ?case by simp
next
  case (Cons b bs)
  have t: "truthy (record_of b)"
    by (simp add: record_of_def truthy_open)
  show ?case
  proof (cases bs)
    case Nil
    then show ?thesis
      using Cons.prems parse_loop_block [of b "[]" qs cur] by simp
  next
    case (Cons c cs)
    then show ?thesis
      using Cons.prems Cons.IH [of "if truthy cur then qs @ [cur] else qs" "record_of b"] t
        parse_loop_block [of b "concat (map render_block bs)" qs cur]
      by simp
  qed
qed


lemma plain_lit_append:
  assumes "plain s" "\<not> isspace c" "nl \<notin> set pre"
  shows "plain (c # pre @ s)"
  using assms by (auto simp: plain_def isspace_nl)

lemma render_block_plain:
  assumes "wf_block b"
  shows "\<forall>l\<in>set (render_block b). plain l"
proof -
  have a: "plain [b_answer b]"
    using assms by (auto simp: wf_block_def plain_def isspace_def nl_def)
  have "plain (CHR ''Q'' # (''uestion '' @ b_label b @ '': '') @ b_question b)"
    using assms by (intro plain_lit_append) (auto simp: wf_block_def isspace_def nl_def)
  moreover have "\<And>m s. plain s \<Longrightarrow> m \<in> set ''ABCD'' \<Longrightarrow> plain (m # '') '' @ s)"
    by (intro plain_lit_append) (auto simp: isspace_def nl_def)
  moreover have "plain (CHR ''A'' # ''nswer: '' @ [b_answer b])"
    using a by (intro plain_lit_append) (auto simp: isspace_def nl_def)
  ultimately show ?thesis
    using assms by (simp add: render_block_def wf_block_def)
qed

lemma valid_record_of: "wf_block b \<Longrightarrow> is_valid_question (record_of b)"
  by (auto simp: wf_block_def is_valid_question_def record_of_def plain_def lower_char_markers)

lemma parse_quiz_blocks_text:
  assumes "\<forall>b\<in>set bs. wf_block b"
  shows "parse_quiz (blocks_text bs) = Inr (take 5 (map record_of (butlast bs)))"
proof (cases "bs = []")
  case True
  then show ?thesis
    by (simp add: parse_quiz_def blocks_text_def clean_lines_def strip_def)
next
  case False
  have "\<forall>l\<in>set (concat (map render_block bs)). plain l"
    using assms render_block_plain by auto
  then have c: "clean_lines (blocks_text bs) = concat (map render_block bs)"
    unfolding blocks_text_def by (rule clean_lines_join_lines)
  have "\<forall>b\<in>set (butlast bs). is_valid_question (record_of b)"
    using assms valid_record_of by (auto dest: in_set_butlastD)
  then have "filter is_valid_question (map record_of (butlast bs)) = map record_of (butlast bs)"
    by (simp add: filter_id_conv)
  then show ?thesis
    using False assms
    by (simp add: parse_quiz_def c parse_loop_blocks truthy_def)
qed

subsection \<open>Kinds of lines\<close>

lemma lower_char_paren: "lower_char CHR '')'' = CHR '')''"
  by code_simp

lemma answer_line_only:
  assumes "is_answer_line line"
  shows "\<not> is_question_line line" "\<not> is_option_line line"
proof -
  obtain c0 c1 r where l: "line = c0 # c1 # r"
    using assms by (cases line; cases "tl line") (auto simp: is_answer_line_def startswith_def lower_def)
  have c: "lower_char c0 = CHR ''a''" "lower_char c1 = CHR ''n''"
    using assms l by (auto simp: is_answer_line_def startswith_def lower_Cons)
  show "\<not> is_question_line line"
    using c l by (auto simp: is_question_line_def startswith_def lower_Cons)
  show "\<not> is_option_line line"
    using c l by (auto simp: is_option_line_def startswith_def lower_char_paren)
qed

lemma option_line_shape:
  "is_option_line l \<longleftrightarrow> (\<exists>m r. m \<in> set ''ABCD'' \<and> l = m # CHR '')'' # r)"
proof
  assume "is_option_line l"
  then show "\<exists>m r. m \<in> set ''ABCD'' \<and> l = m # CHR '')'' # r"
    by (cases l; cases "tl l") (auto simp: is_option_line_def startswith_def)
next
  assume "\<exists>m r. m \<in> set ''ABCD'' \<and> l = m # CHR '')'' # r"
  then show "is_option_line l"
    by (auto simp: is_option_line_def startswith_def)
qed

subsection \<open>Order of the records, and texts with one question line\<close>

text \<open>Blocks of the format that are followed by one more block come out as their records,
  first block first, cut to five: the order of the text is kept.\<close>

lemma parse_quiz_blocks_followed:
  assumes "\<forall>b\<in>set bs. wf_block b" "wf_block b'"
  shows "parse_quiz (blocks_text (bs @ [b'])) = Inr (take 5 (map record_of bs))"
  using assms parse_quiz_blocks_text [of "bs @ [b']"] by simp

text \<open>The list \<^verbatim>\<open>questions\<close> grows at question lines only, and what the first
  question line appends is the dict built before it, which has no question. So a text
  with at most one question line never yields a record.\<close>

lemma step_no_question:
  assumes "\<not> is_question_line l" "step l (qs, c) = Inr (qs', c')"
  shows "qs' = qs \<and> question c' = question c"
  using assms by (auto simp: step_def split: if_splits option.splits list.splits)

lemma step_question_None:
  assumes "\<forall>q\<in>set qs. question q = None" "question c = None" "step l (qs, c) = Inr (qs', c')"
  shows "\<forall>q\<in>set qs'. question q = None"
  using assms by (auto simp: step_def split: if_splits option.splits list.splits)

lemma parse_loop_no_question:
  assumes "\<forall>l\<in>set ls. \<not> is_question_line l" "parse_loop ls (qs, c) = Inr (qs', c')"
  shows "qs' = qs"
  using assms
proof (induction ls arbitrary: qs c)
  case Nil
  then show ?case by simp
next
  case (Cons l ls)
  obtain qs1 c1 where s: "step l (qs, c) = Inr (qs1, c1)"
    using Cons.prems(2) by (cases "step l (qs, c)") auto
  have "qs1 = qs"
    using Cons.prems(1) s step_no_question by auto
  moreover have "parse_loop ls (qs1, c1) = Inr (qs', c')"
    using Cons.prems(2) s by simp
  ultimately show ?case
    using Cons.IH [of qs1 c1] Cons.prems(1) by simp
qed

lemma parse_loop_one_question:
  assumes "length (filter is_question_line ls) \<le> 1" "\<forall>q\<in>set qs. question q = None"
    "question c = None" "parse_loop ls (qs, c) = Inr (qs', c')"
  shows "\<forall>q\<in>set qs'. question q = None"
  using assms
proof (induction ls arbitrary: qs c)
  case Nil
  then show ?case by simp
next
  case (Cons l ls)
  obtain qs1 c1 where s: "step l (qs, c) = Inr (qs1, c1)"
    using Cons.prems(4) by (cases "step l (qs, c)") auto
  have r: "parse_loop ls (qs1, c1) = Inr (qs', c')"
    using Cons.prems(4) s by simp
  have n1: "\<forall>q\<in>set qs1. question q = None"
    using step_question_None [OF Cons.prems(2,3) s] .
  show ?case
  proof (cases "is_question_line l")
    case True
    then have "\<forall>k\<in>set ls. \<not> is_question_line k"
      using Cons.prems(1) by (auto simp: filter_empty_conv)
    then have "qs' = qs1"
      using r parse_loop_no_question by blast
    then show ?thesis using n1 by simp
  next
    case False
    then have "question c1 = None"
      using s step_no_question Cons.prems(3) by fastforce
    moreover have "length (filter is_question_line ls) \<le> 1"
      using Cons.prems(1) False by simp
    ultimately show ?thesis
      using Cons.IH [OF _ n1 _ r] by simp
  qed
qed

lemma parse_quiz_one_question_line:
  assumes "length (filter is_question_line (clean_lines response_text)) \<le> 1"
    "parse_quiz response_text = Inr qs"
  shows "qs = []"
proof -
  obtain qs' c' where p: "parse_loop (clean_lines response_text) ([], empty_q) = Inr (qs', c')"
    and q: "qs = take 5 (filter is_valid_question qs')"
    using assms(2) by (auto simp: parse_quiz_def split: sum.splits)
  have "\<forall>q\<in>set qs'. question q = None"
    using parse_loop_one_question [OF assms(1) _ _ p] by (simp add: empty_q_def)
  then have "filter is_valid_question qs' = []"
    by (auto simp: filter_empty_conv is_valid_question_def)
  then show ?thesis using q by simp
qed

section \<open>The claims\<close>

text \<open>C1. The claim: after the scan an open record is appended, so the single block
  "Question 1: What is 2+2?" with the options 3, 4, 5, 6 and "Answer: B" yields a list of
  one record. The code has no statement after the loop that appends \<^verbatim>\<open>current_q\<close>:
  on that block \<^verbatim>\<open>parse_quiz\<close> returns the empty list.\<close>

theorem parse_quiz_single_block:
  "parse_quiz (join_lines [''Question 1: What is 2+2?'', ''A) 3'', ''B) 4'', ''C) 5'',
      ''D) 6'', ''Answer: B'']) = Inr []"
  by code_simp

text \<open>C2. The claim: \<^verbatim>\<open>parse_quiz\<close> returns a list on every string and never raises.
  On the text "A) 3" the code reads \<^verbatim>\<open>current_q["options"]\<close> in the empty dict and
  raises KeyError; on the text "Answer:" it indexes the empty string and raises
  IndexError.\<close>

theorem parse_quiz_raises:
  "parse_quiz ''A) 3'' = Inl KeyError \<and> parse_quiz ''Answer:'' = Inl IndexError"
  by code_simp

text \<open>C3. The claim: an option line or an answer line met while no record is open is
  ignored, the state is unchanged and the following lines are parsed as usual. In the
  code an option line met in the initial state raises KeyError, so that a text of two
  blocks that parses to one record no longer parses when such a line comes first; an
  answer line met in the initial state stores its letter in \<^verbatim>\<open>current_q\<close>.\<close>

theorem no_open_record_lines:
  "step ''A) 3'' ([], empty_q) = Inl KeyError \<and>
   step ''Answer: B'' ([], empty_q) = Inr ([], empty_q\<lparr>answer := Some ''b''\<rparr>) \<and>
   parse_quiz (join_lines
      (''A) 3'' # render_block (sample_block ''1'') @ render_block (sample_block ''2'')))
     = Inl KeyError \<and>
   parse_quiz (join_lines
      (render_block (sample_block ''1'') @ render_block (sample_block ''2'')))
     = Inr [sample_record]"
  by code_simp

text \<open>C4. Every record of the list that \<^verbatim>\<open>parse_quiz\<close> returns has a non-empty
  question, exactly four options and an answer that is one of the letters a, b, c, d,
  whatever the input string.\<close>

theorem parse_quiz_records_valid:
  assumes "parse_quiz response_text = Inr qs" "q \<in> set qs"
  shows "\<exists>qt os a. q = \<lparr>question = Some qt, options = Some os, answer = Some [a]\<rparr> \<and>
           qt \<noteq> [] \<and> length os = 4 \<and> a \<in> set ''abcd''"
proof -
  have "q \<in> set (filter is_valid_question
            (fst (projr (parse_loop (clean_lines response_text) ([], empty_q)))))"
    using assms by (auto simp: parse_quiz_def split: sum.splits dest: in_set_takeD)
  then have v: "is_valid_question q" by simp
  obtain qt where qt: "question q = Some qt" "qt \<noteq> []"
    using v by (auto simp: is_valid_question_def split: option.splits)
  obtain os where os: "options q = Some os" "length os = 4"
    using v by (auto simp: is_valid_question_def split: option.splits)
  obtain a where a: "answer q = Some [a]" "a \<in> set ''abcd''"
    using v by (auto simp: is_valid_question_def)
  have "q = \<lparr>question = Some qt, options = Some os, answer = Some [a]\<rparr>"
    using qt os a by (cases q) simp
  then show ?thesis using qt os a by blast
qed

theorem parse_quiz_records_valid_witness:
  "parse_quiz (blocks_text [sample_block ''1'', sample_block ''2'']) = Inr [sample_record] \<and>
   sample_record \<in> set [sample_record] \<and>
   (\<exists>qt os a. sample_record = \<lparr>question = Some qt, options = Some os, answer = Some [a]\<rparr> \<and>
           qt \<noteq> [] \<and> length os = 4 \<and> a \<in> set ''abcd'')"
proof -
  have e: "parse_quiz (blocks_text [sample_block ''1'', sample_block ''2'']) = Inr [sample_record]"
    by code_simp
  have m: "sample_record \<in> set [sample_record]" by simp
  show ?thesis
    using e m parse_quiz_records_valid [OF e m] by blast
qed

text \<open>C5. The list that \<^verbatim>\<open>parse_quiz\<close> returns has at most five records, however
  many question blocks the input has. The witness is a text of eight blocks, of which
  five records are returned.\<close>

theorem parse_quiz_at_most_five:
  "parse_quiz response_text = Inr qs \<Longrightarrow> length qs \<le> 5"
  by (auto simp: parse_quiz_def split: sum.splits)

theorem parse_quiz_at_most_five_witness:
  "parse_quiz (blocks_text
      (replicate 8 (sample_block ''1'')))
     = Inr (replicate 5 sample_record) \<and>
   length (replicate 5 sample_record) \<le> 5"
proof -
  have e: "parse_quiz (blocks_text
      (replicate 8 (sample_block ''1'')))
     = Inr (replicate 5 sample_record)"
    by code_simp
  show ?thesis
    using e parse_quiz_at_most_five [OF e] by simp
qed

text \<open>C6. The claim: when the blocks "Question 1" to "Question 5" all parse, the
  output lists their records in the order of the text. On the text of exactly these five
  blocks the code returns four records, those of the blocks 1 to 4 in this order: the
  fifth block is still in \<^verbatim>\<open>current_q\<close> when the loop ends and is never appended.\<close>

theorem parse_quiz_five_blocks:
  "parse_quiz (blocks_text
     [titled_block ''1'' ''first'', titled_block ''2'' ''second'',
      titled_block ''3'' ''third'', titled_block ''4'' ''fourth'', titled_block ''5'' ''fifth''])
   = Inr [sample_record\<lparr>question := Some ''first''\<rparr>,
          sample_record\<lparr>question := Some ''second''\<rparr>,
          sample_record\<lparr>question := Some ''third''\<rparr>,
          sample_record\<lparr>question := Some ''fourth''\<rparr>]"
  by code_simp

text \<open>C7. The claim: an answer line stores the first letter after the first colon. The code
  takes \<^verbatim>\<open>line.split(":")[-1]\<close>, the text after the last colon: for a line that
  lower-cases to a text starting with "answer:", the answer stored is the first
  character, lower-cased, of the stripped text after the last colon of the line, when
  that text is not empty. "Answer: B" stores "b".\<close>

theorem step_answer_last_colon:
  assumes "is_answer_line line" "line = pre @ CHR '':'' # post" "CHR '':'' \<notin> set post"
    "strip post = c # cs"
  shows "step line (qs, cur) = Inr (qs, cur\<lparr>answer := Some [lower_char c]\<rparr>)"
proof -
  have "last (split_on CHR '':'' line) = post"
    using assms(2,3) by (simp add: last_split_on)
  then have "lower (strip (last (split_on CHR '':'' line))) = lower_char c # lower cs"
    using assms(4) by (simp add: lower_Cons)
  then show ?thesis
    using assms(1) answer_line_only [OF assms(1)] by (simp add: step_def)
qed

theorem step_answer_last_colon_witness:
  "is_answer_line ''Answer: B'' \<and> ''Answer: B'' = ''Answer'' @ CHR '':'' # '' B'' \<and>
   CHR '':'' \<notin> set '' B'' \<and> strip '' B'' = CHR ''B'' # [] \<and>
   step ''Answer: B'' ([], open_q) = Inr ([], open_q\<lparr>answer := Some ''b''\<rparr>)"
proof -
  have 1: "is_answer_line ''Answer: B''" by code_simp
  have 3: "CHR '':'' \<notin> set '' B''" by simp
  have 4: "strip '' B'' = CHR ''B'' # []" by code_simp
  have "step ''Answer: B'' ([], open_q) =
      Inr ([], open_q\<lparr>answer := Some [lower_char CHR ''B'']\<rparr>)"
    by (rule step_answer_last_colon [of _ "''Answer''" "'' B''" "CHR ''B''" "[]"])
       (simp_all add: 1 4)
  then show ?thesis
    using 1 3 4 by (simp add: lower_char_markers)
qed

text \<open>C7, the claim as stated fails: with the open record of "Question 1: Pick one", the
  line "Answer: B: d" stores "d" and not "b", and the record returned has the answer
  "d".\<close>

theorem answer_first_colon_counterexample:
  "step ''Answer: B: d'' ([], open_q) = Inr ([], open_q\<lparr>answer := Some ''d''\<rparr>) \<and>
   step ''Answer: B: d'' ([], open_q) \<noteq> Inr ([], open_q\<lparr>answer := Some ''b''\<rparr>) \<and>
   parse_quiz (join_lines [''Question 1: Pick one'', ''A) 1'', ''B) 2'', ''C) 3'', ''D) 4'',
      ''Answer: B: d'', ''Question 2: next''])
     = Inr [\<lparr>question = Some ''Pick one'', options = Some [''1'', ''2'', ''3'', ''4''],
             answer = Some ''d''\<rparr>]"
  by code_simp

text \<open>C8. The claim: the three tests are all case-insensitive, the option markers included.
  In the code the question test and the answer test look at the lower-cased line only, so
  two lines that differ in case alone are treated alike by both; the option test compares
  the line itself with "A)", "B)", "C)", "D)", so an option line is exactly a line that
  starts with one of the capital letters A to D and a closing parenthesis.\<close>

theorem classification_case:
  "(lower l = lower l' \<longrightarrow>
      is_question_line l = is_question_line l' \<and> is_answer_line l = is_answer_line l') \<and>
   (is_option_line l \<longleftrightarrow> (\<exists>m r. m \<in> set ''ABCD'' \<and> l = m # CHR '')'' # r))"
  using option_line_shape [of l] by (simp add: is_question_line_def is_answer_line_def)

theorem classification_case_witness:
  "lower ''QUESTION 2: x'' = lower ''question 2: x'' \<and>
   is_question_line ''QUESTION 2: x'' \<and> is_question_line ''question 2: x'' \<and>
   \<not> is_answer_line ''QUESTION 2: x'' \<and> \<not> is_answer_line ''question 2: x''"
proof -
  have 1: "lower ''QUESTION 2: x'' = lower ''question 2: x''" by code_simp
  have 2: "is_question_line ''question 2: x''" by code_simp
  have 3: "\<not> is_answer_line ''question 2: x''" by code_simp
  show ?thesis
    using 1 2 3 classification_case [of "''QUESTION 2: x''" "''question 2: x''"] by blast
qed

text \<open>C8, the claim as stated fails: "A) 3" is an option line and adds the option "3" to
  the open record, "a) 3" is no option line and leaves the state as it is.\<close>

theorem option_marker_case_counterexample:
  "is_option_line ''A) 3'' \<and> \<not> is_option_line ''a) 3'' \<and>
   step ''A) 3'' ([], open_q) = Inr ([], open_q\<lparr>options := Some [''3'']\<rparr>) \<and>
   step ''a) 3'' ([], open_q) = Inr ([], open_q)"
  by code_simp

text \<open>C9. The claim: the option stored is the text after the marker of two characters,
  stripped. The code stores \<^verbatim>\<open>line[3:].strip()\<close>: for an option line met while
  \<^verbatim>\<open>current_q\<close> has options, the option appended is the text after the first three
  characters of the line, stripped. For "A) 3" it is "3".\<close>

theorem step_option_after_three:
  assumes "is_option_line line" "options cur = Some os"
  shows "step line (qs, cur) = Inr (qs, cur\<lparr>options := Some (os @ [strip (drop 3 line)])\<rparr>)"
proof -
  obtain m r where "m \<in> set ''ABCD''" "line = m # CHR '')'' # r"
    using assms(1) option_line_shape by blast
  then have "\<not> is_question_line line"
    using option_line_kinds(1) by blast
  then show ?thesis
    using assms by (simp add: step_def)
qed

theorem step_option_after_three_witness:
  "is_option_line ''A) 3'' \<and> options open_q = Some [] \<and>
   step ''A) 3'' ([], open_q) = Inr ([], open_q\<lparr>options := Some ([] @ [''3''])\<rparr>)"
proof -
  have 1: "is_option_line ''A) 3''" by code_simp
  have 2: "options open_q = Some []" by (simp add: open_q_def)
  have 3: "strip ''3'' = ''3''" by code_simp
  show ?thesis
    using 1 2 step_option_after_three [OF 1 2, of "[]"] by (simp add: 3)
qed

text \<open>C9, the claim as stated fails: for the line "A)3" the option appended is the empty
  string and not "3".\<close>

theorem option_text_counterexample:
  "step ''A)3'' ([], open_q) = Inr ([], open_q\<lparr>options := Some [[]]\<rparr>) \<and>
   step ''A)3'' ([], open_q) \<noteq> Inr ([], open_q\<lparr>options := Some [''3'']\<rparr>)"
  by code_simp



end
